theory Spec2Isabelle
  imports Main "HOL-Library.Word"
begin

section \<open>The shared counters of server.cpp\<close>

text \<open>
  The globals of server.cpp that the threads share. \<open>burgersPrepared\<close> and
  \<open>burgersServed\<close> are \<open>atomic<int>\<close>, \<open>maxBurgers\<close> is an \<open>int\<close>: 32-bit two's
  complement values, compared as signed numbers (\<open><s\<close>, \<open>\<le>s\<close>) and incremented with
  wrap-around (\<open>++\<close> on an atomic wraps). \<open>serverRunning\<close> is \<open>atomic<bool>\<close>.
\<close>

type_synonym cint = "32 word"

record pool =
  burgersPrepared :: cint
  burgersServed :: cint
  maxBurgers :: cint
  serverRunning :: bool

section \<open>chefFunction\<close>

text \<open>
  One iteration of the loop of \<open>chefFunction\<close>, that is the block that holds \<open>mtx\<close>:
  \<^verbatim>\<open>if (burgersPrepared >= maxBurgers) break; burgersPrepared++;\<close>
  The preparation time, the status line, \<open>notify_all\<close> and the sleep do not touch the
  shared counters. \<open>ChefExited\<close> is the thread after \<open>break\<close>.
\<close>

datatype chef_pc = ChefLoop | ChefExited

definition chefFunction_step :: "pool \<Rightarrow> pool \<times> chef_pc" where
  "chefFunction_step p =
     (if maxBurgers p \<le>s burgersPrepared p then (p, ChefExited)
      else (p\<lparr>burgersPrepared := burgersPrepared p + 1\<rparr>, ChefLoop))"

section \<open>clientHandler\<close>

text \<open>
  The two messages the handler sends: \<open>"Burger Served"\<close> and \<open>"No more burgers"\<close>.
\<close>

datatype response = BurgerServed | NoMoreBurgers

text \<open>
  What \<open>recv\<close> reports: an error (a negative return value), or the bytes that arrived;
  no bytes is the orderly disconnect (return value 0). At most 1024 bytes are written
  into \<open>orderBuffer\<close>, which \<open>memset\<close> filled with zero bytes before.
\<close>

datatype recv_result = RecvError | RecvBytes string

definition NUL :: char where
  "NUL = CHR 0x00"

definition bytesReceived :: "recv_result \<Rightarrow> int" where
  "bytesReceived r = (case r of RecvError \<Rightarrow> - 1 | RecvBytes bs \<Rightarrow> int (length (take 1024 bs)))"

definition cleared_buffer :: string where
  "cleared_buffer = replicate 1024 NUL"

definition buffer_after_recv :: "recv_result \<Rightarrow> string" where
  "buffer_after_recv r =
     (case r of RecvError \<Rightarrow> cleared_buffer
      | RecvBytes bs \<Rightarrow> take 1024 bs @ replicate (1024 - length (take 1024 bs)) NUL)"

text \<open>
  \<open>strcmp\<close> on two character arrays: it walks both until the first difference or a
  terminator. Reading past the end of an array is undefined in C; the model treats the
  end of the list as a terminator. Against the six bytes of the literal \<open>"Order"\<close> a
  1024-byte buffer is never read past its sixth byte.
\<close>

fun strcmp :: "string \<Rightarrow> string \<Rightarrow> int" where
  "strcmp (a # as) (b # bs) =
     (if a \<noteq> b then of_char a - of_char b else if a = NUL then 0 else strcmp as bs)"
| "strcmp [] (b # bs) = - of_char b"
| "strcmp (a # as) [] = of_char a"
| "strcmp [] [] = 0"

definition order_literal :: string where
  "order_literal = ''Order'' @ [NUL]"

text \<open>
  The handler thread. \<open>hpc\<close> is the place of the thread in \<open>clientHandler\<close>:
  at the \<open>while\<close> condition, blocked in \<open>recv\<close>, holding a received order and about
  to take \<open>mtx\<close>, blocked in \<open>cv_burger_ready.wait\<close>, or after the loop, where the
  socket is closed. \<open>sent\<close> lists what \<open>send\<close> wrote to the client socket, oldest first.
\<close>

datatype handler_pc = LoopGuard | Receiving | HoldingOrder | Waiting | SocketClosed

record handler =
  hpc :: handler_pc
  orderBuffer :: string
  ordersProcessed :: cint
  sent :: "response list"

definition new_handler :: handler where
  "new_handler = \<lparr>hpc = LoopGuard, orderBuffer = cleared_buffer, ordersProcessed = 0, sent = []\<rparr>"

text \<open>
  \<^verbatim>\<open>while (serverRunning && ordersProcessed < maxBurgers) { memset(orderBuffer, 0, ...);\<close>
  read without the lock.
\<close>

definition clientHandler_guard :: "pool \<Rightarrow> handler \<Rightarrow> handler" where
  "clientHandler_guard p h =
     (if serverRunning p \<and> ordersProcessed h <s maxBurgers p
      then h\<lparr>hpc := Receiving, orderBuffer := cleared_buffer\<rparr>
      else h\<lparr>hpc := SocketClosed\<rparr>)"

text \<open>
  \<^verbatim>\<open>int bytesReceived = recv(...); if (bytesReceived <= 0) { ...; break; }\<close>
\<close>

definition clientHandler_recv :: "recv_result \<Rightarrow> handler \<Rightarrow> handler" where
  "clientHandler_recv r h =
     (if bytesReceived r \<le> 0 then h\<lparr>hpc := SocketClosed\<rparr>
      else h\<lparr>hpc := HoldingOrder, orderBuffer := buffer_after_recv r\<rparr>)"

text \<open>
  The rest of the loop body, which holds \<open>mtx\<close> from \<open>unique_lock\<close> to the end of the
  iteration (or to \<open>cv_burger_ready.wait\<close>, which releases it):
  \<^verbatim>\<open>
  if (strcmp(orderBuffer, "Order") == 0 && burgersPrepared > burgersServed) {
      burgersServed++;
      send(clientSocket, "Burger Served", ...);
      ordersProcessed++;
      if (burgersServed >= maxBurgers) {
          serverRunning = false;
          cv_burger_ready.notify_all();
          send(clientSocket, "No more burgers", ...);
          break;
      }
  } else {
      cv_burger_ready.wait(lock);
  }
  \<close>
\<close>

definition clientHandler_locked :: "pool \<Rightarrow> handler \<Rightarrow> pool \<times> handler" where
  "clientHandler_locked p h =
     (if strcmp (orderBuffer h) order_literal = 0 \<and> burgersServed p <s burgersPrepared p
      then
        (if maxBurgers p \<le>s burgersServed p + 1
         then (p\<lparr>burgersServed := burgersServed p + 1, serverRunning := False\<rparr>,
               h\<lparr>hpc := SocketClosed, ordersProcessed := ordersProcessed h + 1,
                 sent := sent h @ [BurgerServed, NoMoreBurgers]\<rparr>)
         else (p\<lparr>burgersServed := burgersServed p + 1\<rparr>,
               h\<lparr>hpc := LoopGuard, ordersProcessed := ordersProcessed h + 1,
                 sent := sent h @ [BurgerServed]\<rparr>))
      else (p, h\<lparr>hpc := Waiting\<rparr>))"

text \<open>
  \<open>cv_burger_ready.wait(lock)\<close> returns (after \<open>notify_all\<close>, or spuriously): the
  iteration ends and the thread is back at the \<open>while\<close> condition. The buffer still
  holds the order that was not served.
\<close>

definition clientHandler_wake :: "handler \<Rightarrow> handler" where
  "clientHandler_wake h = h\<lparr>hpc := LoopGuard\<rparr>"

section \<open>The threads together\<close>

text \<open>
  \<open>main\<close> after the chef threads are created: the loop
  \<^verbatim>\<open>while (serverRunning) { int clientSocket = accept(...); if (clientSocket >= 0) clientThreads.emplace_back(clientHandler, clientSocket); }\<close>
  and then the joins.
\<close>

datatype main_pc = AcceptGuard | Accepting | Joining

record sys =
  shared :: pool
  chefs :: "chef_pc list"
  clientThreads :: "handler list"
  mainpc :: main_pc

text \<open>
  One step of one thread. Every block that holds \<open>mtx\<close> is one step; so is every read
  of \<open>serverRunning\<close> outside the lock. A step named for a thread that does not exist,
  or that is not at that place, changes nothing.
\<close>

datatype action =
    ChefTurn nat
  | ClientGuard nat
  | ClientRecv nat recv_result
  | ClientLocked nat
  | ClientWake nat
  | MainGuard
  | MainAccept bool

definition at_pc :: "sys \<Rightarrow> nat \<Rightarrow> handler_pc \<Rightarrow> bool" where
  "at_pc s i l = (i < length (clientThreads s) \<and> hpc (clientThreads s ! i) = l)"

fun step :: "sys \<Rightarrow> action \<Rightarrow> sys" where
  "step s (ChefTurn i) =
     (if i < length (chefs s) \<and> chefs s ! i = ChefLoop
      then s\<lparr>shared := fst (chefFunction_step (shared s)),
             chefs := (chefs s)[i := snd (chefFunction_step (shared s))]\<rparr>
      else s)"
| "step s (ClientGuard i) =
     (if at_pc s i LoopGuard
      then s\<lparr>clientThreads := (clientThreads s)[i := clientHandler_guard (shared s) (clientThreads s ! i)]\<rparr>
      else s)"
| "step s (ClientRecv i r) =
     (if at_pc s i Receiving
      then s\<lparr>clientThreads := (clientThreads s)[i := clientHandler_recv r (clientThreads s ! i)]\<rparr>
      else s)"
| "step s (ClientLocked i) =
     (if at_pc s i HoldingOrder
      then s\<lparr>shared := fst (clientHandler_locked (shared s) (clientThreads s ! i)),
             clientThreads := (clientThreads s)[i := snd (clientHandler_locked (shared s) (clientThreads s ! i))]\<rparr>
      else s)"
| "step s (ClientWake i) =
     (if at_pc s i Waiting
      then s\<lparr>clientThreads := (clientThreads s)[i := clientHandler_wake (clientThreads s ! i)]\<rparr>
      else s)"
| "step s MainGuard =
     (if mainpc s = AcceptGuard
      then s\<lparr>mainpc := (if serverRunning (shared s) then Accepting else Joining)\<rparr>
      else s)"
| "step s (MainAccept ok) =
     (if mainpc s = Accepting
      then (if ok then s\<lparr>clientThreads := clientThreads s @ [new_handler], mainpc := AcceptGuard\<rparr>
            else s\<lparr>mainpc := AcceptGuard\<rparr>)
      else s)"

definition exec :: "sys \<Rightarrow> action list \<Rightarrow> sys" where
  "exec s sched = foldl step s sched"

text \<open>
  The state when \<open>main\<close> has created the chef threads:
  \<^verbatim>\<open>for (int i = 0; i < numChefs; ++i) chefs.emplace_back(chefFunction, i + 1);\<close>
  creates no thread when \<open>numChefs\<close> is not positive.
\<close>

definition initial :: "cint \<Rightarrow> cint \<Rightarrow> sys" where
  "initial mb nc =
     \<lparr>shared = \<lparr>burgersPrepared = 0, burgersServed = 0, maxBurgers = mb, serverRunning = True\<rparr>,
      chefs = replicate (nat (sint nc)) ChefLoop,
      clientThreads = [],
      mainpc = AcceptGuard\<rparr>"

section \<open>Startup: the command line in main\<close>

text \<open>
  \<open>atoi\<close> of the C library, which is \<open>(int) strtol(str, NULL, 10)\<close>: leading white
  space, an optional sign, then the decimal digits up to the first other character; no
  digits give 0. \<open>strtol\<close> replaces a value outside the range of \<open>long\<close> (64 bits) by
  \<open>LONG_MAX\<close> or \<open>LONG_MIN\<close>, and the conversion to \<open>int\<close> keeps the low 32 bits.
\<close>

definition isspace :: "char \<Rightarrow> bool" where
  "isspace c = (c \<in> set [CHR 0x20, CHR 0x09, CHR 0x0A, CHR 0x0B, CHR 0x0C, CHR 0x0D])"

definition isdigit :: "char \<Rightarrow> bool" where
  "isdigit c = ((48::nat) \<le> of_char c \<and> of_char c \<le> (57::nat))"

fun digits_value :: "int \<Rightarrow> string \<Rightarrow> int" where
  "digits_value acc [] = acc"
| "digits_value acc (c # cs) =
     (if isdigit c then digits_value (10 * acc + (of_char c - 48)) cs else acc)"

definition strtol_range :: "int \<Rightarrow> int" where
  "strtol_range v = max (- (2 ^ 63)) (min (2 ^ 63 - 1) v)"

definition atoi :: "string \<Rightarrow> cint" where
  "atoi str =
     (case dropWhile isspace str of
        [] \<Rightarrow> 0
      | c # cs \<Rightarrow>
          if c = CHR ''-'' then word_of_int (strtol_range (- digits_value 0 cs))
          else if c = CHR ''+'' then word_of_int (strtol_range (digits_value 0 cs))
          else word_of_int (strtol_range (digits_value 0 (c # cs))))"

text \<open>
  \<open>main\<close> up to the creation of the chef threads. \<open>argv\<close> is the whole argument
  vector, \<open>argc\<close> its length; the defaults are 25 burgers and 2 chefs.
  \<^verbatim>\<open>
  if (argc > 1) {
      if (argc == 3) { maxBurgers = atoi(argv[1]); numChefs = atoi(argv[2]); }
      else { cout << "Usage: " << argv[0] << " <MaxBurgers> <NumChefs>" << endl; return 1; }
  }
  \<close>
  \<open>UsageExit\<close> carries the line printed and the value returned; \<open>Serving\<close> is the
  state in which the threads start to run.
\<close>

datatype startup = UsageExit string int | Serving sys

definition main_startup :: "string list \<Rightarrow> startup" where
  "main_startup argv =
     (if 1 < length argv
      then (if length argv = 3
            then Serving (initial (atoi (argv ! 1)) (atoi (argv ! 2)))
            else UsageExit (''Usage: '' @ argv ! 0 @ '' <MaxBurgers> <NumChefs>'') 1)
      else Serving (initial 25 2))"

section \<open>The contract of the specification\<close>

text \<open>
  The two operations of the pool as the specification words them, to be compared with
  the blocks of \<open>chefFunction\<close> and \<open>clientHandler\<close> that hold the lock.
  \<open>tryProduce\<close>: if \<open>produced < quota\<close>, increments \<open>produced\<close>, returns true; else
  returns false and has no effect.
  \<open>tryConsume\<close>: if \<open>running\<close> and \<open>produced > consumed\<close>, increments \<open>consumed\<close>; if
  this makes \<open>consumed == quota\<close>, sets \<open>running = false\<close>; returns true. Otherwise
  returns false.
\<close>

definition tryProduce :: "pool \<Rightarrow> bool \<times> pool" where
  "tryProduce p =
     (if burgersPrepared p <s maxBurgers p
      then (True, p\<lparr>burgersPrepared := burgersPrepared p + 1\<rparr>)
      else (False, p))"

definition tryConsume :: "pool \<Rightarrow> bool \<times> pool" where
  "tryConsume p =
     (if serverRunning p \<and> burgersServed p <s burgersPrepared p
      then (True,
            if burgersServed p + 1 = maxBurgers p
            then p\<lparr>burgersServed := burgersServed p + 1, serverRunning := False\<rparr>
            else p\<lparr>burgersServed := burgersServed p + 1\<rparr>)
      else (False, p))"

text \<open>
  The request as the handler reads it: the bytes of the buffer before the first zero
  byte, which is what \<open>strcmp\<close> compares.
\<close>

definition c_string :: "string \<Rightarrow> string" where
  "c_string bs = takeWhile (\<lambda>c. c \<noteq> NUL) bs"

section \<open>Invariants\<close>

text \<open>
  The invariant of the counters: \<open>0 \<le> burgersServed \<le> burgersPrepared \<le> maxBurgers\<close>
  as signed numbers, and the server has stopped exactly when the quota is served.
\<close>

definition pool_inv :: "pool \<Rightarrow> bool" where
  "pool_inv p =
     (0 \<le> sint (burgersServed p) \<and> sint (burgersServed p) \<le> sint (burgersPrepared p)
      \<and> sint (burgersPrepared p) \<le> sint (maxBurgers p)
      \<and> (serverRunning p = False \<longleftrightarrow> burgersServed p = maxBurgers p))"

text \<open>
  What holds of the counters for every quota, positive or not: a chef only prepares
  below the quota, so \<open>burgersPrepared\<close> is still 0 or within the quota, and the flag
  is only cleared when the quota is served.
\<close>

definition reach_inv :: "pool \<Rightarrow> bool" where
  "reach_inv p =
     (0 \<le> sint (burgersServed p) \<and> sint (burgersServed p) \<le> sint (burgersPrepared p)
      \<and> (burgersPrepared p = 0 \<or> sint (burgersPrepared p) \<le> sint (maxBurgers p))
      \<and> (serverRunning p = False \<longrightarrow> burgersServed p = maxBurgers p))"

text \<open>
  \<open>pool_le p q\<close>: from \<open>p\<close> to \<open>q\<close> no counter went down and a stopped server stayed
  stopped.
\<close>

definition pool_le :: "pool \<Rightarrow> pool \<Rightarrow> bool" where
  "pool_le p q =
     (sint (burgersPrepared p) \<le> sint (burgersPrepared q)
      \<and> sint (burgersServed p) \<le> sint (burgersServed q)
      \<and> (serverRunning p = False \<longrightarrow> serverRunning q = False))"



section \<open>Sample runs\<close>

text \<open>
  One chef turn, one accepted connection, and one order received and handled.
\<close>

definition sample_schedule :: "action list" where
  "sample_schedule =
     [ChefTurn 0, MainGuard, MainAccept True, ClientGuard 0,
      ClientRecv 0 (RecvBytes ''Order''), ClientLocked 0]"

text \<open>
  Two burgers prepared, and one of them served to the only session.
\<close>

definition one_of_two_served :: "action list" where
  "one_of_two_served =
     [ChefTurn 0, ChefTurn 0, MainGuard, MainAccept True, ClientGuard 0,
      ClientRecv 0 (RecvBytes ''Order''), ClientLocked 0]"

text \<open>
  One burger prepared and two connections accepted, both handlers in \<open>recv\<close>.
\<close>

definition two_sessions :: "action list" where
  "two_sessions =
     [ChefTurn 0, MainGuard, MainAccept True, MainGuard, MainAccept True,
      ClientGuard 0, ClientGuard 1]"

text \<open>
  Two sessions. The second session orders first, finds no burger and waits; the chef
  prepares a burger; the first session orders and is served it, which with a quota of 1
  stops the server; the second session wakes and is at the \<open>while\<close> condition again.
\<close>

definition shutdown_race :: "action list" where
  "shutdown_race =
     [MainGuard, MainAccept True, MainGuard, MainAccept True,
      ClientGuard 1, ClientRecv 1 (RecvBytes ''Order''), ClientLocked 1,
      ChefTurn 0,
      ClientGuard 0, ClientRecv 0 (RecvBytes ''Order''), ClientLocked 0,
      ClientWake 1]"

section \<open>Preservation of the invariant\<close>

lemma sint_succ:
  fixes x y :: cint
  assumes "sint x < sint y"
  shows "sint (x + 1) = sint x + 1"
proof -
  have "sint y < 2 ^ 31" using sint_lt [of y] by simp
  moreover have "- (2 ^ 31) \<le> sint x" using sint_ge [of x] by simp
  ultimately have "signed_take_bit 31 (sint x + 1) = sint x + 1"
    using assms by (intro signed_take_bit_int_eq_self) auto
  then show ?thesis by (simp add: sint_word_ariths)
qed

lemma sint_eq_iff: "sint (x::cint) = sint y \<longleftrightarrow> x = y"
  using word_eq_iff_signed [where ?'a = int, of x y] by auto

lemma chef_preserves_inv:
  "pool_inv p \<Longrightarrow> pool_inv (fst (chefFunction_step p))"
  by (auto simp: pool_inv_def chefFunction_step_def word_sle_eq sint_succ [of "burgersPrepared p" "maxBurgers p"])

lemma locked_preserves_inv:
  assumes "pool_inv p"
  shows "pool_inv (fst (clientHandler_locked p h))"
proof (cases "strcmp (orderBuffer h) order_literal = 0 \<and> burgersServed p <s burgersPrepared p")
  case False
  then show ?thesis using assms by (auto simp: clientHandler_locked_def)
next
  case True
  then have lt: "sint (burgersServed p) < sint (burgersPrepared p)"
    by (simp add: word_sless_alt)
  have suc: "sint (burgersServed p + 1) = sint (burgersServed p) + 1"
    using lt by (rule sint_succ)
  have ne: "burgersServed p \<noteq> maxBurgers p"
    using lt assms by (auto simp: pool_inv_def)
  then have run: "serverRunning p" using assms by (simp add: pool_inv_def)
  show ?thesis
  proof (cases "maxBurgers p \<le>s burgersServed p + 1")
    case True
    then have "sint (burgersServed p + 1) = sint (maxBurgers p)"
      using suc lt assms by (simp add: pool_inv_def word_sle_eq)
    then have "burgersServed p + 1 = maxBurgers p" by (simp add: sint_eq_iff)
    then show ?thesis using True \<open>strcmp _ _ = 0 \<and> _\<close> suc lt assms
      by (simp add: clientHandler_locked_def pool_inv_def)
  next
    case False
    then have "sint (burgersServed p + 1) < sint (maxBurgers p)" by (simp add: word_sle_eq)
    then have "burgersServed p + 1 \<noteq> maxBurgers p" by auto
    then show ?thesis using False \<open>strcmp _ _ = 0 \<and> _\<close> suc lt assms run
      by (simp add: clientHandler_locked_def pool_inv_def)
  qed
qed

lemma step_preserves_inv:
  "pool_inv (shared s) \<Longrightarrow> pool_inv (shared (step s a))"
  by (cases a) (simp_all add: chef_preserves_inv locked_preserves_inv)

lemma exec_preserves_inv:
  "pool_inv (shared s) \<Longrightarrow> pool_inv (shared (exec s sched))"
  unfolding exec_def
  by (induction sched arbitrary: s) (simp_all add: step_preserves_inv)

lemma initial_inv: "0 <s mb \<Longrightarrow> pool_inv (shared (initial mb nc))"
  by (simp add: initial_def pool_inv_def word_sless_alt) auto

lemma step_maxBurgers: "maxBurgers (shared (step s a)) = maxBurgers (shared s)"
  by (cases a) (simp_all add: chefFunction_step_def clientHandler_locked_def)

lemma exec_maxBurgers: "maxBurgers (shared (exec s sched)) = maxBurgers (shared s)"
  unfolding exec_def
  by (induction sched arbitrary: s) (simp_all add: step_maxBurgers)

lemma initial_maxBurgers: "maxBurgers (shared (initial mb nc)) = mb"
  by (simp add: initial_def)

section \<open>What strcmp compares\<close>

lemma of_char_int_eq_0_iff: "(of_char c :: int) = 0 \<longleftrightarrow> c = NUL"
  using of_char_eq_iff [where ?'a = int, of c NUL] by (simp add: NUL_def)

lemma strcmp_terminated:
  "NUL \<notin> set lit \<Longrightarrow> strcmp buf (lit @ [NUL]) = 0 \<longleftrightarrow> c_string buf = lit"
proof (induction lit arbitrary: buf)
  case Nil
  show ?case
    by (cases buf) (auto simp: c_string_def of_char_int_eq_0_iff NUL_def)
next
  case (Cons c lit)
  then have c: "c \<noteq> NUL" and rest: "NUL \<notin> set lit" by auto
  show ?case
  proof (cases buf)
    case Nil
    then show ?thesis using c by (simp add: c_string_def of_char_int_eq_0_iff)
  next
    case (Cons b buf')
    show ?thesis
    proof (cases "b = c")
      case True
      then show ?thesis using Cons c Cons.IH [OF rest, of buf'] by (simp add: c_string_def)
    next
      case False
      then have "(of_char b :: int) \<noteq> of_char c" by simp
      then show ?thesis using Cons False by (auto simp: c_string_def)
    qed
  qed
qed

lemma strcmp_order: "strcmp buf order_literal = 0 \<longleftrightarrow> c_string buf = ''Order''"
  unfolding order_literal_def by (rule strcmp_terminated) (simp add: NUL_def)

lemma c_string_append_NULs: "c_string (bs @ replicate n NUL) = c_string bs"
  by (induction bs) (auto simp: c_string_def)

lemma c_string_take:
  assumes "length lit < n"
  shows "c_string (take n bs) = lit \<longleftrightarrow> c_string bs = lit"
proof -
  have eq: "c_string (take n bs) = take n (c_string bs)"
    unfolding c_string_def by (induction bs arbitrary: n) (auto simp: take_Cons' )
  show ?thesis
  proof
    assume "c_string (take n bs) = lit"
    then have t: "take n (c_string bs) = lit" by (simp add: eq)
    then have "length (take n (c_string bs)) < n" using assms by simp
    then have "length (c_string bs) < n" by (simp add: min_def split: if_splits)
    then show "c_string bs = lit" using t by simp
  next
    assume "c_string bs = lit"
    then show "c_string (take n bs) = lit" using assms by (simp add: eq)
  qed
qed

lemma c_string_buffer_after_recv:
  "c_string (buffer_after_recv (RecvBytes bs)) = ''Order'' \<longleftrightarrow> c_string bs = ''Order''"
  by (simp add: buffer_after_recv_def c_string_append_NULs c_string_take)

section \<open>Steps only move forward\<close>

lemma chef_step_monotone:
  "sint (burgersPrepared p) \<le> sint (burgersPrepared (fst (chefFunction_step p)))
   \<and> burgersServed (fst (chefFunction_step p)) = burgersServed p
   \<and> serverRunning (fst (chefFunction_step p)) = serverRunning p"
  by (simp add: chefFunction_step_def word_sle_eq sint_succ [of "burgersPrepared p" "maxBurgers p"])

lemma locked_monotone:
  "burgersPrepared (fst (clientHandler_locked p h)) = burgersPrepared p
   \<and> sint (burgersServed p) \<le> sint (burgersServed (fst (clientHandler_locked p h)))
   \<and> (serverRunning p = False \<longrightarrow> serverRunning (fst (clientHandler_locked p h)) = False)"
  by (simp add: clientHandler_locked_def word_sless_alt
      sint_succ [of "burgersServed p" "burgersPrepared p"])

lemma pool_le_refl: "pool_le p p"
  by (simp add: pool_le_def)

lemma pool_le_trans: "pool_le p q \<Longrightarrow> pool_le q r \<Longrightarrow> pool_le p r"
  by (auto simp: pool_le_def)

lemma step_monotone: "pool_le (shared s) (shared (step s a))"
proof (cases a)
  case (ChefTurn i)
  then show ?thesis using chef_step_monotone [of "shared s"] by (simp add: pool_le_def)
next
  case (ClientLocked i)
  then show ?thesis
    using locked_monotone [of "shared s" "clientThreads s ! i"] by (simp add: pool_le_def)
qed (simp_all add: pool_le_def)

lemma exec_monotone: "pool_le (shared s) (shared (exec s sched))"
  unfolding exec_def
proof (induction sched arbitrary: s)
  case Nil
  show ?case by (simp add: pool_le_refl)
next
  case (Cons a sched)
  have "pool_le (shared s) (shared (step s a))" by (rule step_monotone)
  moreover have "pool_le (shared (step s a)) (shared (foldl step (step s a) sched))"
    by (rule Cons.IH)
  ultimately show ?case by (auto intro: pool_le_trans)
qed

lemma step_prepared_le_max:
  "burgersPrepared (shared s) \<le>s maxBurgers (shared s)
   \<Longrightarrow> burgersPrepared (shared (step s a)) \<le>s maxBurgers (shared (step s a))"
  by (cases a)
    (simp_all add: chefFunction_step_def clientHandler_locked_def word_sle_eq
      sint_succ [of "burgersPrepared (shared s)" "maxBurgers (shared s)"])

lemma exec_prepared_le_max:
  "burgersPrepared (shared s) \<le>s maxBurgers (shared s)
   \<Longrightarrow> burgersPrepared (shared (exec s sched)) \<le>s maxBurgers (shared (exec s sched))"
  unfolding exec_def
  by (induction sched arbitrary: s) (simp_all add: step_prepared_le_max)

lemma served_below_quota:
  assumes "reach_inv p" and "burgersServed p <s burgersPrepared p"
  shows "serverRunning p"
    and "sint (burgersServed p + 1) = sint (burgersServed p) + 1"
    and "maxBurgers p \<le>s burgersServed p + 1 \<longleftrightarrow> burgersServed p + 1 = maxBurgers p"
proof -
  have lt: "sint (burgersServed p) < sint (burgersPrepared p)"
    using assms(2) by (simp add: word_sless_alt)
  then have "burgersPrepared p \<noteq> 0" using assms(1) by (auto simp: reach_inv_def)
  then have le: "sint (burgersPrepared p) \<le> sint (maxBurgers p)"
    using assms(1) by (simp add: reach_inv_def)
  then have "burgersServed p \<noteq> maxBurgers p" using lt by auto
  then show "serverRunning p" using assms(1) by (auto simp: reach_inv_def)
  show suc: "sint (burgersServed p + 1) = sint (burgersServed p) + 1"
    using lt by (rule sint_succ)
  have "sint (burgersServed p + 1) \<le> sint (maxBurgers p)"
    using suc lt le by simp
  then show "maxBurgers p \<le>s burgersServed p + 1 \<longleftrightarrow> burgersServed p + 1 = maxBurgers p"
    by (auto simp: word_sle_eq simp flip: sint_eq_iff)
qed

lemma chef_preserves_reach_inv:
  "reach_inv p \<Longrightarrow> reach_inv (fst (chefFunction_step p))"
  by (auto simp: reach_inv_def chefFunction_step_def word_sle_eq
      sint_succ [of "burgersPrepared p" "maxBurgers p"])

lemma locked_preserves_reach_inv:
  assumes "reach_inv p"
  shows "reach_inv (fst (clientHandler_locked p h))"
proof (cases "strcmp (orderBuffer h) order_literal = 0 \<and> burgersServed p <s burgersPrepared p")
  case False
  then show ?thesis using assms by (auto simp: clientHandler_locked_def)
next
  case True
  then have avail: "burgersServed p <s burgersPrepared p" by simp
  note facts = served_below_quota [OF assms avail]
  have lt: "sint (burgersServed p) < sint (burgersPrepared p)"
    using avail by (simp add: word_sless_alt)
  show ?thesis
    using True facts lt assms
    by (auto simp: clientHandler_locked_def reach_inv_def)
qed

lemma step_preserves_reach_inv:
  "reach_inv (shared s) \<Longrightarrow> reach_inv (shared (step s a))"
  by (cases a) (simp_all add: chef_preserves_reach_inv locked_preserves_reach_inv)

lemma exec_preserves_reach_inv:
  "reach_inv (shared s) \<Longrightarrow> reach_inv (shared (exec s sched))"
  unfolding exec_def
  by (induction sched arbitrary: s) (simp_all add: step_preserves_reach_inv)

lemma initial_reach_inv: "reach_inv (shared (initial mb nc))"
  by (simp add: initial_def reach_inv_def)

lemma locked_is_tryConsume:
  assumes "reach_inv p" and "c_string (orderBuffer h) = ''Order''"
  shows "clientHandler_locked p h =
     (if serverRunning p \<and> burgersServed p <s burgersPrepared p
      then (snd (tryConsume p),
            h\<lparr>hpc := (if burgersServed p + 1 = maxBurgers p then SocketClosed else LoopGuard),
              ordersProcessed := ordersProcessed h + 1,
              sent := sent h @ (if burgersServed p + 1 = maxBurgers p
                                then [BurgerServed, NoMoreBurgers] else [BurgerServed])\<rparr>)
      else (p, h\<lparr>hpc := Waiting\<rparr>))"
proof (cases "burgersServed p <s burgersPrepared p")
  case True
  note facts = served_below_quota [OF assms(1) True]
  have cmp: "strcmp (orderBuffer h) order_literal = 0"
    using assms(2) by (simp add: strcmp_order)
  show ?thesis
    using True facts(1,3) cmp by (simp add: clientHandler_locked_def tryConsume_def)
next
  case False
  then show ?thesis by (simp add: clientHandler_locked_def)
qed

section \<open>The output of a session\<close>











section \<open>The claims\<close>

text \<open>
  Claim C1. In every state the server reaches from its start with a positive quota,
  whatever the threads and the order of their steps, the quota is the one fixed at the
  start and \<open>0 \<le> burgersServed \<le> burgersPrepared \<le> maxBurgers\<close>.
\<close>

theorem counters_within_quota:
  assumes "0 <s mb"
  shows "maxBurgers (shared (exec (initial mb nc) sched)) = mb
    \<and> 0 \<le> sint (burgersServed (shared (exec (initial mb nc) sched)))
    \<and> sint (burgersServed (shared (exec (initial mb nc) sched)))
        \<le> sint (burgersPrepared (shared (exec (initial mb nc) sched)))
    \<and> sint (burgersPrepared (shared (exec (initial mb nc) sched))) \<le> sint mb"
proof -
  have "pool_inv (shared (exec (initial mb nc) sched))"
    using assms by (intro exec_preserves_inv initial_inv)
  moreover have "maxBurgers (shared (exec (initial mb nc) sched)) = mb"
    by (simp add: exec_maxBurgers initial_maxBurgers)
  ultimately show ?thesis by (simp add: pool_inv_def)
qed

text \<open>
  The bounds at work: quota 3, one burger prepared and served.
\<close>

theorem counters_within_quota_witness:
  "0 <s (3::cint)
   \<and> burgersServed (shared (exec (initial 3 1) sample_schedule)) = 1
   \<and> burgersPrepared (shared (exec (initial 3 1) sample_schedule)) = 1
   \<and> maxBurgers (shared (exec (initial 3 1) sample_schedule)) = 3
    \<and> 0 \<le> sint (burgersServed (shared (exec (initial 3 1) sample_schedule)))
    \<and> sint (burgersServed (shared (exec (initial 3 1) sample_schedule)))
        \<le> sint (burgersPrepared (shared (exec (initial 3 1) sample_schedule)))
    \<and> sint (burgersPrepared (shared (exec (initial 3 1) sample_schedule))) \<le> sint (3::cint)"
proof -
  have h: "0 <s (3::cint)" by (simp add: word_sless_alt)
  have e1: "burgersServed (shared (exec (initial 3 1) sample_schedule)) = 1" by code_simp
  have e2: "burgersPrepared (shared (exec (initial 3 1) sample_schedule)) = 1" by code_simp
  show ?thesis using h e1 e2 counters_within_quota [OF h, of 1 sample_schedule] by simp
qed

text \<open>
  Claim C2. In every state the server reaches from its start with a positive quota,
  \<open>serverRunning\<close> is false if and only if \<open>burgersServed\<close> equals the quota.
  The states are those between the blocks that hold \<open>mtx\<close>: the handler that serves
  the last burger counts it and clears the flag inside one such block.
\<close>

theorem running_iff_quota_consumed:
  assumes "0 <s mb"
  shows "serverRunning (shared (exec (initial mb nc) sched)) = False
     \<longleftrightarrow> burgersServed (shared (exec (initial mb nc) sched)) = mb"
proof -
  have "pool_inv (shared (exec (initial mb nc) sched))"
    using assms by (intro exec_preserves_inv initial_inv)
  moreover have "maxBurgers (shared (exec (initial mb nc) sched)) = mb"
    by (simp add: exec_maxBurgers initial_maxBurgers)
  ultimately show ?thesis by (simp add: pool_inv_def)
qed

text \<open>
  With quota 1: still running before the only burger is served, stopped after.
\<close>

theorem running_iff_quota_consumed_witness:
  "0 <s (1::cint)
   \<and> serverRunning (shared (exec (initial 1 1) sample_schedule)) = False
   \<and> burgersServed (shared (exec (initial 1 1) sample_schedule)) = 1
   \<and> serverRunning (shared (exec (initial 1 1) (butlast sample_schedule))) = True
   \<and> burgersServed (shared (exec (initial 1 1) (butlast sample_schedule))) = 0"
proof -
  have h: "0 <s (1::cint)" by (simp add: word_sless_alt)
  have e1: "burgersServed (shared (exec (initial 1 1) sample_schedule)) = 1" by code_simp
  have e2: "burgersServed (shared (exec (initial 1 1) (butlast sample_schedule))) = 0" by code_simp
  show ?thesis
    using h e1 e2 running_iff_quota_consumed [OF h, of 1 sample_schedule]
      running_iff_quota_consumed [OF h, of 1 "butlast sample_schedule"]
    by simp
qed

text \<open>
  Claim C3. In every state the server reaches, for every quota, chef count and order
  of steps, the locked block of the handler on an \<open>Order\<close> request is \<open>tryConsume\<close>:
  if the server is running and a burger is in stock it adds exactly one to
  \<open>burgersServed\<close>, leaves \<open>burgersPrepared\<close> and the quota alone, stops the server
  exactly when the new count equals the quota, and sends \<open>Burger Served\<close>; otherwise
  it sends nothing, changes nothing and waits.
\<close>

theorem consume_attempt_is_tryConsume:
  assumes "p = shared (exec (initial mb nc) sched)"
    and "c_string (orderBuffer h) = ''Order''"
  shows "fst (clientHandler_locked p h) = snd (tryConsume p)
   \<and> (serverRunning p \<and> burgersServed p <s burgersPrepared p \<longrightarrow>
        fst (tryConsume p)
        \<and> sint (burgersServed (fst (clientHandler_locked p h))) = sint (burgersServed p) + 1
        \<and> burgersPrepared (fst (clientHandler_locked p h)) = burgersPrepared p
        \<and> maxBurgers (fst (clientHandler_locked p h)) = maxBurgers p
        \<and> (serverRunning (fst (clientHandler_locked p h)) = False
             \<longleftrightarrow> burgersServed (fst (clientHandler_locked p h)) = maxBurgers p)
        \<and> (sent (snd (clientHandler_locked p h)) = sent h @ [BurgerServed]
             \<or> sent (snd (clientHandler_locked p h)) = sent h @ [BurgerServed, NoMoreBurgers]))
   \<and> (\<not> (serverRunning p \<and> burgersServed p <s burgersPrepared p) \<longrightarrow>
        \<not> fst (tryConsume p)
        \<and> fst (clientHandler_locked p h) = p
        \<and> sent (snd (clientHandler_locked p h)) = sent h
        \<and> hpc (snd (clientHandler_locked p h)) = Waiting)"
proof -
  have inv: "reach_inv p"
    unfolding assms(1) by (intro exec_preserves_reach_inv initial_reach_inv)
  note eq = locked_is_tryConsume [OF inv assms(2)]
  show ?thesis
  proof (cases "serverRunning p \<and> burgersServed p <s burgersPrepared p")
    case True
    then have avail: "burgersServed p <s burgersPrepared p" by simp
    note facts = served_below_quota [OF inv avail]
    show ?thesis
      using True facts(2) by (auto simp: eq tryConsume_def)
  next
    case False
    then show ?thesis by (auto simp: eq tryConsume_def)
  qed
qed

text \<open>
  Quota 2, two burgers prepared and one served: the next order takes the last burger
  and stops the server. Quota 3, one burger prepared and served: the next order finds
  no burger in stock.
\<close>

theorem consume_attempt_is_tryConsume_witness:
  "c_string (buffer_after_recv (RecvBytes ''Order'')) = ''Order''
   \<and> shared (exec (initial 2 1) one_of_two_served)
      = \<lparr>burgersPrepared = 2, burgersServed = 1, maxBurgers = 2, serverRunning = True\<rparr>
   \<and> sint (burgersServed (fst (clientHandler_locked (shared (exec (initial 2 1) one_of_two_served))
        \<lparr>hpc = HoldingOrder, orderBuffer = buffer_after_recv (RecvBytes ''Order''),
         ordersProcessed = 1, sent = [BurgerServed]\<rparr>))) = 2
   \<and> serverRunning (fst (clientHandler_locked (shared (exec (initial 2 1) one_of_two_served))
        \<lparr>hpc = HoldingOrder, orderBuffer = buffer_after_recv (RecvBytes ''Order''),
         ordersProcessed = 1, sent = [BurgerServed]\<rparr>)) = False
   \<and> shared (exec (initial 3 1) sample_schedule)
      = \<lparr>burgersPrepared = 1, burgersServed = 1, maxBurgers = 3, serverRunning = True\<rparr>
   \<and> fst (clientHandler_locked (shared (exec (initial 3 1) sample_schedule))
        \<lparr>hpc = HoldingOrder, orderBuffer = buffer_after_recv (RecvBytes ''Order''),
         ordersProcessed = 1, sent = [BurgerServed]\<rparr>)
      = shared (exec (initial 3 1) sample_schedule)
   \<and> hpc (snd (clientHandler_locked (shared (exec (initial 3 1) sample_schedule))
        \<lparr>hpc = HoldingOrder, orderBuffer = buffer_after_recv (RecvBytes ''Order''),
         ordersProcessed = 1, sent = [BurgerServed]\<rparr>)) = Waiting"
proof -
  let ?p = "shared (exec (initial 2 1) one_of_two_served)"
  let ?q = "shared (exec (initial 3 1) sample_schedule)"
  let ?h = "\<lparr>hpc = HoldingOrder, orderBuffer = buffer_after_recv (RecvBytes ''Order''),
         ordersProcessed = 1, sent = [BurgerServed]\<rparr>"
  have h2: "c_string (orderBuffer ?h) = ''Order''"
    by (simp add: c_string_buffer_after_recv) (simp add: c_string_def NUL_def)
  have p: "?p = \<lparr>burgersPrepared = 2, burgersServed = 1, maxBurgers = 2, serverRunning = True\<rparr>"
    by code_simp
  have q: "?q = \<lparr>burgersPrepared = 1, burgersServed = 1, maxBurgers = 3, serverRunning = True\<rparr>"
    by code_simp
  have h3: "serverRunning ?p \<and> burgersServed ?p <s burgersPrepared ?p"
    by (simp add: p word_sless_alt)
  have k3: "\<not> (serverRunning ?q \<and> burgersServed ?q <s burgersPrepared ?q)"
    by (simp add: q)
  note t = consume_attempt_is_tryConsume [OF refl h2, of 2 1 one_of_two_served]
  note u = consume_attempt_is_tryConsume [OF refl h2, of 3 1 sample_schedule]
  have a: "sint (burgersServed (fst (clientHandler_locked ?p ?h))) = sint (burgersServed ?p) + 1"
    using t h3 by blast
  have "serverRunning (fst (clientHandler_locked ?p ?h)) = False
       \<longleftrightarrow> burgersServed (fst (clientHandler_locked ?p ?h)) = maxBurgers ?p"
    using t h3 by blast
  moreover have "sint (burgersServed (fst (clientHandler_locked ?p ?h))) = sint (maxBurgers ?p)"
    using a by (simp add: p)
  ultimately have b: "serverRunning (fst (clientHandler_locked ?p ?h)) = False"
    by (simp add: sint_eq_iff)
  have c: "fst (clientHandler_locked ?q ?h) = ?q \<and> hpc (snd (clientHandler_locked ?q ?h)) = Waiting"
    using u k3 by blast
  have a': "sint (burgersServed (fst (clientHandler_locked ?p ?h))) = 2"
    using a by (simp add: p)
  show ?thesis
    using h2 p q a' b c by simp
qed

text \<open>
  Claim C4. The locked block of a chef is \<open>tryProduce\<close>: below the quota it adds
  exactly one to \<open>burgersPrepared\<close> and the chef loops on; at or above the quota it
  changes nothing and the chef leaves its loop, after which its turns do nothing. So
  \<open>burgersPrepared \<le> maxBurgers\<close> survives every sequence of steps, with any number
  of chefs, and holds throughout every run that starts with a quota that is not negative.
\<close>

theorem producer_step_is_tryProduce:
  "chefFunction_step p = (snd (tryProduce p), if fst (tryProduce p) then ChefLoop else ChefExited)
   \<and> (burgersPrepared p <s maxBurgers p \<longrightarrow>
        sint (burgersPrepared (fst (chefFunction_step p))) = sint (burgersPrepared p) + 1
        \<and> fst (chefFunction_step p) = p\<lparr>burgersPrepared := burgersPrepared p + 1\<rparr>
        \<and> snd (chefFunction_step p) = ChefLoop)
   \<and> (maxBurgers p \<le>s burgersPrepared p \<longrightarrow> chefFunction_step p = (p, ChefExited))
   \<and> (i < length (chefs s) \<and> chefs s ! i = ChefExited \<longrightarrow> step s (ChefTurn i) = s)
   \<and> (burgersPrepared (shared s) \<le>s maxBurgers (shared s) \<longrightarrow>
        burgersPrepared (shared (exec s sched)) \<le>s maxBurgers (shared (exec s sched)))
   \<and> (0 \<le>s mb \<longrightarrow> burgersPrepared (shared (exec (initial mb nc) sched)) \<le>s mb)"
proof -
  have a: "chefFunction_step p
      = (snd (tryProduce p), if fst (tryProduce p) then ChefLoop else ChefExited)"
    by (auto simp: chefFunction_step_def tryProduce_def word_sle_eq word_sless_alt)
  have b: "burgersPrepared p <s maxBurgers p \<longrightarrow>
        sint (burgersPrepared (fst (chefFunction_step p))) = sint (burgersPrepared p) + 1
        \<and> fst (chefFunction_step p) = p\<lparr>burgersPrepared := burgersPrepared p + 1\<rparr>
        \<and> snd (chefFunction_step p) = ChefLoop"
    by (auto simp: chefFunction_step_def word_sle_eq word_sless_alt
        sint_succ [of "burgersPrepared p" "maxBurgers p"])
  have c: "maxBurgers p \<le>s burgersPrepared p \<longrightarrow> chefFunction_step p = (p, ChefExited)"
    by (simp add: chefFunction_step_def)
  have d: "i < length (chefs s) \<and> chefs s ! i = ChefExited \<longrightarrow> step s (ChefTurn i) = s"
    by simp
  have e: "burgersPrepared (shared s) \<le>s maxBurgers (shared s) \<longrightarrow>
        burgersPrepared (shared (exec s sched)) \<le>s maxBurgers (shared (exec s sched))"
    by (simp add: exec_prepared_le_max)
  have f: "0 \<le>s mb \<longrightarrow> burgersPrepared (shared (exec (initial mb nc) sched)) \<le>s mb"
  proof
    assume "0 \<le>s mb"
    then have "burgersPrepared (shared (initial mb nc)) \<le>s maxBurgers (shared (initial mb nc))"
      by (simp add: initial_def)
    then have "burgersPrepared (shared (exec (initial mb nc) sched))
        \<le>s maxBurgers (shared (exec (initial mb nc) sched))"
      by (rule exec_prepared_le_max)
    then show "burgersPrepared (shared (exec (initial mb nc) sched)) \<le>s mb"
      by (simp add: exec_maxBurgers initial_maxBurgers)
  qed
  from a b c d e f show ?thesis by blast
qed

text \<open>
  A chef below the quota (2 of 3), a chef at the quota, three chefs taking five turns
  on a quota of 2, and a chef that has left its loop.
\<close>

theorem producer_step_is_tryProduce_witness:
  "sint (burgersPrepared (fst (chefFunction_step
      \<lparr>burgersPrepared = 2, burgersServed = 0, maxBurgers = 3, serverRunning = True\<rparr>))) = 3
   \<and> chefFunction_step \<lparr>burgersPrepared = 3, burgersServed = 0, maxBurgers = 3, serverRunning = True\<rparr>
      = (\<lparr>burgersPrepared = 3, burgersServed = 0, maxBurgers = 3, serverRunning = True\<rparr>, ChefExited)
   \<and> burgersPrepared (shared (exec (initial 2 3)
        [ChefTurn 0, ChefTurn 1, ChefTurn 2, ChefTurn 0, ChefTurn 1])) \<le>s 2
   \<and> chefs (exec (initial 0 1) [ChefTurn 0]) = [ChefExited]
   \<and> step (exec (initial 0 1) [ChefTurn 0]) (ChefTurn 0) = exec (initial 0 1) [ChefTurn 0]
   \<and> burgersPrepared (shared (exec (initial 2 3) [ChefTurn 0])) = 1
   \<and> burgersPrepared (shared (exec (exec (initial 2 3) [ChefTurn 0]) [ChefTurn 1, ChefTurn 2]))
       \<le>s maxBurgers (shared (exec (exec (initial 2 3) [ChefTurn 0]) [ChefTurn 1, ChefTurn 2]))"
proof -
  let ?p = "\<lparr>burgersPrepared = 2, burgersServed = 0, maxBurgers = 3, serverRunning = True\<rparr>"
  let ?q = "\<lparr>burgersPrepared = 3, burgersServed = 0, maxBurgers = 3, serverRunning = True\<rparr>"
  have h1: "burgersPrepared ?p <s maxBurgers ?p" by (simp add: word_sless_alt)
  have h2: "maxBurgers ?q \<le>s burgersPrepared ?q" by simp
  have h3: "0 \<le>s (2::cint)" by (simp add: word_sle_eq)
  have "sint (burgersPrepared (fst (chefFunction_step ?p))) = sint (burgersPrepared ?p) + 1"
    using h1 producer_step_is_tryProduce [of ?p] by blast
  moreover have "chefFunction_step ?q = (?q, ChefExited)"
    using h2 producer_step_is_tryProduce [of ?q] by blast
  moreover have "burgersPrepared (shared (exec (initial 2 3)
        [ChefTurn 0, ChefTurn 1, ChefTurn 2, ChefTurn 0, ChefTurn 1])) \<le>s 2"
    using h3 producer_step_is_tryProduce [where mb = 2 and nc = 3] by blast
  moreover have h4: "chefs (exec (initial 0 1) [ChefTurn 0]) = [ChefExited]" by code_simp
  moreover have "step (exec (initial 0 1) [ChefTurn 0]) (ChefTurn 0) = exec (initial 0 1) [ChefTurn 0]"
    using h4 producer_step_is_tryProduce [where s = "exec (initial 0 1) [ChefTurn 0]" and i = 0]
    by simp
  moreover have h5: "burgersPrepared (shared (exec (initial 2 3) [ChefTurn 0])) = 1"
    and h6: "maxBurgers (shared (exec (initial 2 3) [ChefTurn 0])) = 2" by code_simp+
  moreover have "burgersPrepared (shared (exec (exec (initial 2 3) [ChefTurn 0]) [ChefTurn 1, ChefTurn 2]))
       \<le>s maxBurgers (shared (exec (exec (initial 2 3) [ChefTurn 0]) [ChefTurn 1, ChefTurn 2]))"
  proof -
    have "burgersPrepared (shared (exec (initial 2 3) [ChefTurn 0]))
        \<le>s maxBurgers (shared (exec (initial 2 3) [ChefTurn 0]))"
      by (simp add: h5 h6 word_sle_eq)
    then show ?thesis
      using producer_step_is_tryProduce [where s = "exec (initial 2 3) [ChefTurn 0]"
          and sched = "[ChefTurn 1, ChefTurn 2]"]
      by blast
  qed
  ultimately show ?thesis by simp
qed




text \<open>
  Claim C6, as stated, fails. In \<open>shutdown_race\<close> the second session waits in
  \<open>cv_burger_ready.wait\<close> when the first is served the last burger. Woken, it reads
  \<open>serverRunning == false\<close> at the \<open>while\<close> condition, leaves the loop and closes
  its socket; nothing was ever sent to it.
\<close>

theorem session_without_notice:
  "serverRunning (shared (exec (initial 1 1) shutdown_race)) = False
   \<and> hpc (clientThreads (exec (initial 1 1) shutdown_race) ! 1) = LoopGuard
   \<and> hpc (clientThreads (exec (initial 1 1) (shutdown_race @ [ClientGuard 1])) ! 1) = SocketClosed
   \<and> sent (clientThreads (exec (initial 1 1) (shutdown_race @ [ClientGuard 1])) ! 1) = []"
  by code_simp

text \<open>
  Claim C6, amended. A handler that reads \<open>serverRunning == false\<close> at its
  \<open>while\<close> condition (woken from the wait, or started when the server has already
  stopped) ends its session and sends nothing. No step but the locked block sends
  anything, and the locked block sends \<open>No more burgers\<close> only right after
  \<open>Burger Served\<close>, in the session whose own order brought \<open>burgersServed\<close> up to
  the quota and stopped the server, and that session ends with it.
\<close>

theorem closing_notice_only_with_last_burger:
  "(serverRunning p = False \<longrightarrow>
      hpc (clientHandler_guard p h) = SocketClosed \<and> sent (clientHandler_guard p h) = sent h)
   \<and> hpc (clientHandler_wake h) = LoopGuard
   \<and> sent (clientHandler_wake h) = sent h
   \<and> sent (clientHandler_recv r h) = sent h
   \<and> sent (clientHandler_guard p h) = sent h
   \<and> hpc new_handler = LoopGuard \<and> sent new_handler = []
   \<and> (sent (snd (clientHandler_locked p h)) = sent h
       \<or> sent (snd (clientHandler_locked p h)) = sent h @ [BurgerServed]
       \<or> (sent (snd (clientHandler_locked p h)) = sent h @ [BurgerServed, NoMoreBurgers]
          \<and> hpc (snd (clientHandler_locked p h)) = SocketClosed
          \<and> c_string (orderBuffer h) = ''Order''
          \<and> burgersServed p <s burgersPrepared p
          \<and> burgersServed (fst (clientHandler_locked p h)) = burgersServed p + 1
          \<and> maxBurgers p \<le>s burgersServed (fst (clientHandler_locked p h))
          \<and> serverRunning (fst (clientHandler_locked p h)) = False))"
  by (simp add: clientHandler_guard_def clientHandler_wake_def clientHandler_recv_def
      clientHandler_locked_def new_handler_def strcmp_order)

text \<open>
  A waiting session, woken after the only burger is gone.
\<close>

theorem closing_notice_only_with_last_burger_witness:
  "serverRunning \<lparr>burgersPrepared = 1, burgersServed = 1, maxBurgers = 1, serverRunning = False\<rparr> = False
   \<and> hpc (clientHandler_guard
        \<lparr>burgersPrepared = 1, burgersServed = 1, maxBurgers = 1, serverRunning = False\<rparr>
        (clientHandler_wake \<lparr>hpc = Waiting, orderBuffer = buffer_after_recv (RecvBytes ''Order''),
           ordersProcessed = 0, sent = []\<rparr>)) = SocketClosed
   \<and> sent (clientHandler_guard
        \<lparr>burgersPrepared = 1, burgersServed = 1, maxBurgers = 1, serverRunning = False\<rparr>
        (clientHandler_wake \<lparr>hpc = Waiting, orderBuffer = buffer_after_recv (RecvBytes ''Order''),
           ordersProcessed = 0, sent = []\<rparr>)) = []"
proof -
  let ?p = "\<lparr>burgersPrepared = 1, burgersServed = 1, maxBurgers = 1, serverRunning = False\<rparr>"
  let ?h = "\<lparr>hpc = Waiting, orderBuffer = buffer_after_recv (RecvBytes ''Order''),
           ordersProcessed = 0, sent = []\<rparr>"
  have h: "serverRunning ?p = False" by simp
  note t = closing_notice_only_with_last_burger [of ?p "clientHandler_wake ?h"]
  have "hpc (clientHandler_guard ?p (clientHandler_wake ?h)) = SocketClosed
      \<and> sent (clientHandler_guard ?p (clientHandler_wake ?h)) = sent (clientHandler_wake ?h)"
    using t h by blast
  moreover have "sent (clientHandler_wake ?h) = sent ?h"
    using closing_notice_only_with_last_burger [of _ ?h] by blast
  ultimately show ?thesis by simp
qed

text \<open>
  Claim C7, as stated, fails: \<open>main\<close> never looks at the values it parsed. With
  \<open>MaxBurgers = 0\<close> it goes on to serve and creates both chef threads.
\<close>

theorem nonpositive_quota_is_served:
  "main_startup [''./server'', ''0'', ''2'']
   = Serving \<lparr>shared = \<lparr>burgersPrepared = 0, burgersServed = 0, maxBurgers = 0, serverRunning = True\<rparr>,
              chefs = [ChefLoop, ChefLoop], clientThreads = [], mainpc = AcceptGuard\<rparr>"
  by code_simp

text \<open>
  Claim C7, amended. \<open>main\<close> rejects its command line, printing the usage line and
  returning 1 before any thread is created, exactly when arguments are given and they
  are not exactly two. With two arguments it serves with the parsed values whatever
  their sign, and with none it serves with 25 burgers and 2 chefs; it creates
  \<open>numChefs\<close> chef threads when that is positive and none otherwise, and no handler
  exists yet.
\<close>

theorem startup_checks_argument_count_only:
  "(main_startup argv = UsageExit (''Usage: '' @ argv ! 0 @ '' <MaxBurgers> <NumChefs>'') 1
      \<longleftrightarrow> 1 < length argv \<and> length argv \<noteq> 3)
   \<and> (length argv = 3 \<longrightarrow>
        main_startup argv = Serving (initial (atoi (argv ! 1)) (atoi (argv ! 2))))
   \<and> (length argv \<le> 1 \<longrightarrow> main_startup argv = Serving (initial 25 2))
   \<and> maxBurgers (shared (initial mb nc)) = mb
   \<and> length (chefs (initial mb nc)) = nat (sint nc)
   \<and> clientThreads (initial mb nc) = []"
  by (auto simp: main_startup_def initial_def)

text \<open>
  A negative quota and no chefs are accepted; one argument is rejected; no argument
  gives the defaults.
\<close>

theorem startup_checks_argument_count_only_witness:
  "main_startup [''./server'', ''-5'', ''0''] = Serving (initial (atoi ''-5'') (atoi ''0''))
   \<and> sint (atoi ''-5'') = - 5
   \<and> atoi ''0'' = 0
   \<and> main_startup [''./server'', ''5''] = UsageExit ''Usage: ./server <MaxBurgers> <NumChefs>'' 1
   \<and> main_startup [''./server''] = Serving (initial 25 2)"
proof -
  have a: "main_startup [''./server'', ''-5'', ''0''] = Serving (initial (atoi ''-5'') (atoi ''0''))"
    using startup_checks_argument_count_only [of "[''./server'', ''-5'', ''0'']"] by simp
  have b: "main_startup [''./server'', ''5''] = UsageExit ''Usage: ./server <MaxBurgers> <NumChefs>'' 1"
    using startup_checks_argument_count_only [of "[''./server'', ''5'']"] by simp
  have c: "main_startup [''./server''] = Serving (initial 25 2)"
    using startup_checks_argument_count_only [of "[''./server'']"] by simp
  have d: "sint (atoi ''-5'') = - 5" by code_simp
  have e: "atoi ''0'' = 0" by code_simp
  from a b c d e show ?thesis by simp
qed

text \<open>
  Claim C8. When \<open>recv\<close> reports a disconnect (0) or an error (negative), the handler
  leaves its loop: the counters, the flag, the chefs, \<open>main\<close> and every other session
  are as before, and nothing is sent.
\<close>

theorem failed_recv_ends_only_its_session:
  assumes "bytesReceived r \<le> 0" and "at_pc s i Receiving"
  shows "shared (step s (ClientRecv i r)) = shared s
   \<and> chefs (step s (ClientRecv i r)) = chefs s
   \<and> mainpc (step s (ClientRecv i r)) = mainpc s
   \<and> length (clientThreads (step s (ClientRecv i r))) = length (clientThreads s)
   \<and> hpc (clientThreads (step s (ClientRecv i r)) ! i) = SocketClosed
   \<and> sent (clientThreads (step s (ClientRecv i r)) ! i) = sent (clientThreads s ! i)
   \<and> (\<forall>j. j \<noteq> i \<longrightarrow> clientThreads (step s (ClientRecv i r)) ! j = clientThreads s ! j)"
  using assms by (auto simp: clientHandler_recv_def at_pc_def)

text \<open>
  Two accepted sessions; the first one's \<open>recv\<close> reports a disconnect.
\<close>

theorem failed_recv_ends_only_its_session_witness:
  "bytesReceived (RecvBytes []) \<le> 0
   \<and> at_pc (exec (initial 3 1) two_sessions) 0 Receiving
   \<and> shared (step (exec (initial 3 1) two_sessions) (ClientRecv 0 (RecvBytes [])))
      = shared (exec (initial 3 1) two_sessions)
   \<and> hpc (clientThreads (step (exec (initial 3 1) two_sessions) (ClientRecv 0 (RecvBytes []))) ! 0)
      = SocketClosed
   \<and> clientThreads (step (exec (initial 3 1) two_sessions) (ClientRecv 0 (RecvBytes []))) ! 1
      = clientThreads (exec (initial 3 1) two_sessions) ! 1"
proof -
  have h1: "bytesReceived (RecvBytes []) \<le> 0" by (simp add: bytesReceived_def)
  have h2: "at_pc (exec (initial 3 1) two_sessions) 0 Receiving" by code_simp
  have h3: "(1::nat) \<noteq> 0" by simp
  note t = failed_recv_ends_only_its_session [OF h1 h2]
  have "clientThreads (step (exec (initial 3 1) two_sessions) (ClientRecv 0 (RecvBytes []))) ! 1
      = clientThreads (exec (initial 3 1) two_sessions) ! 1"
    using t h3 by blast
  then show ?thesis using h1 h2 t by simp
qed

text \<open>
  Claim C9. From any state, along any sequence of steps of any threads,
  \<open>burgersPrepared\<close> does not decrease, \<open>burgersServed\<close> does not decrease, and once
  \<open>serverRunning\<close> is false it stays false.
\<close>

theorem counters_never_go_back:
  "sint (burgersPrepared (shared s)) \<le> sint (burgersPrepared (shared (exec s sched)))
   \<and> sint (burgersServed (shared s)) \<le> sint (burgersServed (shared (exec s sched)))
   \<and> (serverRunning (shared s) = False \<longrightarrow> serverRunning (shared (exec s sched)) = False)"
  using exec_monotone [of s sched] by (simp add: pool_le_def)

text \<open>
  After the only burger of a quota of 1 is served the server has stopped; further steps
  of the chef, of \<open>main\<close> and of the handler leave it stopped.
\<close>

theorem counters_never_go_back_witness:
  "serverRunning (shared (exec (initial 1 1) sample_schedule)) = False
   \<and> serverRunning (shared (exec (exec (initial 1 1) sample_schedule)
        [ChefTurn 0, MainGuard, ClientGuard 0, ClientWake 0])) = False
   \<and> sint (burgersServed (shared (exec (initial 1 1) sample_schedule)))
       \<le> sint (burgersServed (shared (exec (exec (initial 1 1) sample_schedule)
        [ChefTurn 0, MainGuard, ClientGuard 0, ClientWake 0])))"
proof -
  have e: "serverRunning (shared (exec (initial 1 1) sample_schedule)) = False" by code_simp
  show ?thesis
    using e counters_never_go_back [of "exec (initial 1 1) sample_schedule"
        "[ChefTurn 0, MainGuard, ClientGuard 0, ClientWake 0]"]
    by simp
qed




end
